theory Spec2Isabelle
  imports Main
begin

section \<open>Python values used by Enigma.py\<close>

text \<open>
  Strings are lists of characters. A character is a code point below 256 (HOL's
  \<open>char\<close>); \<open>ord\<close> is \<open>of_char\<close>. Strings that the program builds with
  \<open>chr\<close> are kept as lists of code points (integers), since \<open>chr (k + 65)\<close> may
  lie beyond 255.
\<close>

datatype arg = Str string | StrList "string list" | IntList "int list"

datatype error = InputError arg | IndexError | ValueError | TypeError | ZeroDivisionError

definition py_ord :: "char \<Rightarrow> int" where
  "py_ord c = of_char c"

text \<open>\<open>chr\<close> raises ValueError outside the range of Unicode.\<close>

definition py_chr :: "int \<Rightarrow> error + int" where
  "py_chr k = (if 0 \<le> k \<and> k \<le> 1114111 then Inr k else Inl ValueError)"

text \<open>\<open>xs[i]\<close>: a negative index counts from the end, anything out of range raises.\<close>

definition item :: "'a list \<Rightarrow> int \<Rightarrow> error + 'a" where
  "item xs i =
     (if 0 \<le> i \<and> i < int (length xs) then Inr (xs ! nat i)
      else if - int (length xs) \<le> i \<and> i < 0 then Inr (xs ! nat (int (length xs) + i))
      else Inl IndexError)"

text \<open>The bound of a slice \<open>xs[i:]\<close> or \<open>xs[:i]\<close>: clamped, never raising.\<close>

definition slice_bound :: "'a list \<Rightarrow> int \<Rightarrow> nat" where
  "slice_bound xs i =
     (if i < 0 then nat (max 0 (int (length xs) + i)) else min (nat i) (length xs))"

definition slice_from :: "'a list \<Rightarrow> int \<Rightarrow> 'a list" where
  "slice_from xs i = drop (slice_bound xs i) xs"

definition slice_to :: "'a list \<Rightarrow> int \<Rightarrow> 'a list" where
  "slice_to xs i = take (slice_bound xs i) xs"

text \<open>\<open>xs.index(v)\<close>: the first position of \<open>v\<close>, ValueError when there is none.\<close>

fun py_index :: "'a list \<Rightarrow> 'a \<Rightarrow> error + nat" where
  "py_index [] v = Inl ValueError"
| "py_index (x # xs) v =
     (if x = v then Inr 0
      else case py_index xs v of Inl e \<Rightarrow> Inl e | Inr k \<Rightarrow> Inr (Suc k))"

text \<open>\<open>s.replace(c, "")\<close> for a one-character \<open>c\<close>: every occurrence goes.\<close>

definition replace_empty :: "string \<Rightarrow> char \<Rightarrow> string" where
  "replace_empty s c = filter (\<lambda>x. x \<noteq> c) s"

text \<open>
  \<open>str.upper()\<close>, character by character. Below 256 it changes a..z, the sharp s
  (223, which becomes two letters) and the accented small letters 224..254 except 247.
  The capitals of 181 and 255 lie beyond 255; these two characters are kept as they are:
  like their capitals they are outside A..Z, where \<open>encode\<close> only skips them.
\<close>

definition upper_char :: "char \<Rightarrow> string" where
  "upper_char c =
     (let k = (of_char c :: nat) in
      if 97 \<le> k \<and> k \<le> 122 then [char_of (k - 32)]
      else if k = 223 then ''SS''
      else if 224 \<le> k \<and> k \<le> 254 \<and> k \<noteq> 247 then [char_of (k - 32)]
      else [c])"

definition upper :: "string \<Rightarrow> string" where
  "upper msg = concat (map upper_char msg)"

text \<open>A list of results is a result: the first error wins.\<close>

fun collect :: "(error + 'a) list \<Rightarrow> error + 'a list" where
  "collect [] = Inr []"
| "collect (r # rs) =
     (case r of Inl e \<Rightarrow> Inl e
      | Inr v \<Rightarrow> (case collect rs of Inl e \<Rightarrow> Inl e | Inr vs \<Rightarrow> Inr (v # vs)))"

section \<open>The machine\<close>

text \<open>The fields of class Enigma (Python mangles \<open>self.__walzen\<close> to \<open>_Enigma__walzen\<close>).\<close>

record Enigma =
  Enigma_num_walzen :: int
  Enigma_base :: string
  Enigma_alphabet :: string
  Enigma_walzen :: "string list"
  Enigma_umkehrwalze :: string
  Enigma_steckerbrett :: "string list"
  Enigma_ringkerben :: "int list"

section \<open>encode\<close>

subsection \<open>Setting the rotors to the base\<close>

text \<open>
  \<open>relation_walze\<close> holds, for each position \<open>j\<close>, the distance from the \<open>j\<close>-th letter
  of A, B, C, ... to the letter on the rotor.
\<close>

definition relation_walze :: "string \<Rightarrow> int list" where
  "relation_walze walze = map (\<lambda>(j, char). py_ord char - 65 - int j) (enumerate 0 walze)"

text \<open>\<open>count\<close> is the list \<open>[0, 0, 0]\<close>; its length never changes, so it is a triple.\<close>

type_synonym count = "int \<times> int \<times> int"

fun count_set :: "count \<Rightarrow> nat \<Rightarrow> int \<Rightarrow> error + count" where
  "count_set (c0, c1, c2) i v =
     (if i = 0 then Inr (v, c1, c2)
      else if i = 1 then Inr (c0, v, c2)
      else if i = 2 then Inr (c0, c1, v)
      else Inl IndexError)"

text \<open>The loop \<open>for i, walze in enumerate(wlz)\<close>, from index \<open>i\<close> on.\<close>

fun set_to_base ::
  "string \<Rightarrow> nat \<Rightarrow> string list \<Rightarrow> int list list \<Rightarrow> count \<Rightarrow> error + int list list \<times> count" where
  "set_to_base b i [] walzen count = Inr (walzen, count)"
| "set_to_base b i (walze # wlz) walzen count =
     (case item b (int i) of Inl e \<Rightarrow> Inl e
      | Inr base_i \<Rightarrow>
          (let index = py_ord base_i - 65;
               rel = relation_walze walze;
               walze' = slice_from rel index @ slice_to rel index
           in case count_set count i index of Inl e \<Rightarrow> Inl e
              | Inr count' \<Rightarrow> set_to_base b (Suc i) wlz (walzen @ [walze']) count'))"

subsection \<open>One character through the machine\<close>

text \<open>The letters currently on one rotor: \<open>chr((num + i) % len(alphabet) + 65)\<close>.\<close>

definition walze_curr :: "string \<Rightarrow> int list \<Rightarrow> error + int list" where
  "walze_curr alph walze =
     collect (map (\<lambda>(i, num).
        if length alph = 0 then Inl ZeroDivisionError
        else py_chr ((num + int i) mod int (length alph) + 65)) (enumerate 0 walze))"

definition walzen_curr :: "string \<Rightarrow> int list list \<Rightarrow> error + int list list" where
  "walzen_curr alph walzen = collect (map (walze_curr alph) walzen)"

text \<open>
  The plugboard on the way in: the first plug holding \<open>char\<close> decides; \<open>ord\<close> of what
  is left of the plug raises TypeError unless that is one character.
\<close>

fun stecker_in :: "string list \<Rightarrow> char \<Rightarrow> int \<Rightarrow> error + int" where
  "stecker_in [] char lex_index = Inr lex_index"
| "stecker_in (stecker # sb) char lex_index =
     (if char \<in> set stecker then
        (case replace_empty stecker char of
           [new_char] \<Rightarrow> Inr (py_ord new_char - 65)
         | _ \<Rightarrow> Inl TypeError)
      else stecker_in sb char lex_index)"

text \<open>Forward through the rotors.\<close>

fun forward :: "int list list \<Rightarrow> int \<Rightarrow> error + int" where
  "forward [] lex_index = Inr lex_index"
| "forward (walze # ws) lex_index =
     (case item walze lex_index of Inl e \<Rightarrow> Inl e
      | Inr new_letter \<Rightarrow> forward ws (new_letter - 65))"

text \<open>Back through the rotors, given in the order they are visited.\<close>

fun backward :: "string \<Rightarrow> int list list \<Rightarrow> char \<Rightarrow> error + char" where
  "backward alph [] new_letter = Inr new_letter"
| "backward alph (walze # ws) new_letter =
     (case py_index walze (py_ord new_letter) of Inl e \<Rightarrow> Inl e
      | Inr index \<Rightarrow>
          (case item alph (int index) of Inl e \<Rightarrow> Inl e
           | Inr new_letter' \<Rightarrow> backward alph ws new_letter'))"

text \<open>The plugboard on the way out: what is left of the plug is appended as it is.\<close>

fun stecker_out :: "string list \<Rightarrow> char \<Rightarrow> string" where
  "stecker_out [] char = [char]"
| "stecker_out (stecker # sb) char =
     (if char \<in> set stecker then replace_empty stecker char else stecker_out sb char)"

text \<open>
  The body of the loop for a character with \<open>0 \<le> ord(char) - 65 \<le> 25\<close>, up to the
  string appended to the message. After the rotors and the reflector \<open>lex_index\<close> is
  \<open>ord(new_letter) - 65\<close>, so \<open>chr(lex_index + 65)\<close> is a character below 256.
\<close>

definition encode_char :: "Enigma \<Rightarrow> int list list \<Rightarrow> char \<Rightarrow> error + string" where
  "encode_char self walzen char =
     (case walzen_curr (Enigma_alphabet self) walzen of Inl e \<Rightarrow> Inl e
      | Inr letters \<Rightarrow>
     (case stecker_in (Enigma_steckerbrett self) char (py_ord char - 65) of Inl e \<Rightarrow> Inl e
      | Inr lex_index \<Rightarrow>
     (case forward letters lex_index of Inl e \<Rightarrow> Inl e
      | Inr lex_index \<Rightarrow>
     (case item (Enigma_umkehrwalze self) lex_index of Inl e \<Rightarrow> Inl e
      | Inr new_letter \<Rightarrow>
     (case backward (Enigma_alphabet self) (rev letters) new_letter of Inl e \<Rightarrow> Inl e
      | Inr new_letter \<Rightarrow>
          (let lex_index = py_ord new_letter - 65;
               char = char_of (lex_index + 65)
           in Inr (stecker_out (Enigma_steckerbrett self) char)))))))"

subsection \<open>Stepping\<close>

text \<open>\<open>walzen[k] = walzen[k][1:] + [walzen[k][0]]\<close>\<close>

definition rotate_walze :: "int list list \<Rightarrow> nat \<Rightarrow> error + int list list" where
  "rotate_walze walzen k =
     (if k < length walzen then
        (case walzen ! k of [] \<Rightarrow> Inl IndexError
         | x # xs \<Rightarrow> Inr (walzen[k := xs @ [x]]))
      else Inl IndexError)"

definition rotate_walzen ::
  "int list \<Rightarrow> int list list \<Rightarrow> count \<Rightarrow> error + int list list \<times> count" where
  "rotate_walzen rk walzen count =
     (case count of (c0, c1, c2) \<Rightarrow>
      case rotate_walze walzen 0 of Inl e \<Rightarrow> Inl e
      | Inr walzen \<Rightarrow>
     (let c0 = c0 mod 26 + 1 in
      case item rk 0 of Inl e \<Rightarrow> Inl e
      | Inr rk0 \<Rightarrow>
          if c0 = rk0 then
            (case rotate_walze walzen 1 of Inl e \<Rightarrow> Inl e
             | Inr walzen \<Rightarrow>
            (let c1 = c1 mod 26 + 1 in
             case item rk 1 of Inl e \<Rightarrow> Inl e
             | Inr rk1 \<Rightarrow>
                 if c1 = rk1 then
                   (case rotate_walze walzen 2 of Inl e \<Rightarrow> Inl e
                    | Inr walzen \<Rightarrow> Inr (walzen, (c0, c1, c2)))
                 else Inr (walzen, (c0, c1, c2))))
          else Inr (walzen, (c0, c1, c2))))"

subsection \<open>The message\<close>

text \<open>
  The loop \<open>for char in char_list\<close>: the message so far is built from the front, and
  the rotors and counters at the end of the loop are returned with it. A character
  outside A..Z is skipped: nothing is appended and no rotor moves.
\<close>

fun encode_loop ::
  "Enigma \<Rightarrow> int list list \<Rightarrow> count \<Rightarrow> string \<Rightarrow> error + string \<times> int list list \<times> count" where
  "encode_loop self walzen count [] = Inr ([], walzen, count)"
| "encode_loop self walzen count (char # char_list) =
     (let lex_index = py_ord char - 65 in
      if lex_index \<ge> 0 \<and> lex_index \<le> 25 then
        (case encode_char self walzen char of Inl e \<Rightarrow> Inl e
         | Inr out \<Rightarrow>
        (case rotate_walzen (Enigma_ringkerben self) walzen count of Inl e \<Rightarrow> Inl e
         | Inr (walzen', count') \<Rightarrow>
        (case encode_loop self walzen' count' char_list of Inl e \<Rightarrow> Inl e
         | Inr (encoded_message, end_state) \<Rightarrow> Inr (out @ encoded_message, end_state))))
      else encode_loop self walzen count char_list)"

text \<open>
  \<open>encode\<close>. The flags only print; what is printed is not modelled, but the header
  reads \<open>wlz[0]\<close>, \<open>wlz[1]\<close> and \<open>wlz[2]\<close> and so raises with fewer than three rotors.
\<close>

definition encode_flags :: "Enigma \<Rightarrow> string \<Rightarrow> bool \<Rightarrow> bool \<Rightarrow> error + string" where
  "encode_flags self msg verbose vverbose =
     (if (verbose \<or> vverbose) \<and> length (Enigma_walzen self) < 3 then Inl IndexError
      else
        (case set_to_base (Enigma_base self) 0 (Enigma_walzen self) [] (0, 0, 0) of
           Inl e \<Rightarrow> Inl e
         | Inr (walzen, count) \<Rightarrow>
             (case encode_loop self walzen count (upper msg) of Inl e \<Rightarrow> Inl e
              | Inr (encoded_message, end_state) \<Rightarrow> Inr encoded_message)))"

definition encode :: "Enigma \<Rightarrow> string \<Rightarrow> error + string" where
  "encode self msg = encode_flags self msg False False"


section \<open>The random module\<close>

text \<open>
  The generator is the stream of the numbers it will deliver. \<open>random.sample\<close> picks
  \<open>k\<close> different positions of the population, one after the other (ValueError when
  there are fewer than \<open>k\<close>); \<open>random.randint(a, b)\<close> picks a number from \<open>a\<close> to \<open>b\<close>.
\<close>

type_synonym rng = "nat \<Rightarrow> nat"

definition rng_next :: "rng \<Rightarrow> rng" where
  "rng_next r = (\<lambda>i. r (Suc i))"

fun pick :: "'a list \<Rightarrow> nat \<Rightarrow> rng \<Rightarrow> 'a list \<times> rng" where
  "pick pool 0 r = ([], r)"
| "pick pool (Suc k) r =
     (let j = r 0 mod length pool;
          (rest, r') = pick (take j pool @ drop (Suc j) pool) k (rng_next r)
      in (pool ! j # rest, r'))"

definition random_sample :: "'a list \<Rightarrow> nat \<Rightarrow> rng \<Rightarrow> error + 'a list \<times> rng" where
  "random_sample population k r =
     (if length population < k then Inl ValueError else Inr (pick population k r))"

definition random_randint :: "int \<Rightarrow> int \<Rightarrow> rng \<Rightarrow> int \<times> rng" where
  "random_randint a b r = (a + int (r 0 mod nat (b - a + 1)), rng_next r)"

lemma pick_length_set:
  "pick pool k g = (xs, g') \<Longrightarrow> k \<le> length pool \<Longrightarrow> length xs = k \<and> set xs \<subseteq> set pool"
proof (induction k arbitrary: pool g xs g')
  case 0
  then show ?case by simp
next
  case (Suc k)
  let ?j = "g 0 mod length pool"
  let ?pool = "take ?j pool @ drop (Suc ?j) pool"
  obtain rest g2 where rest: "pick ?pool k (rng_next g) = (rest, g2)"
    by (cases "pick ?pool k (rng_next g)")
  from Suc.prems(2) have pos: "0 < length pool" by (cases pool) simp_all
  then have j: "?j < length pool" by simp
  from Suc.prems(1) rest have xs: "xs = pool ! ?j # rest" by (simp add: Let_def)
  have "k \<le> length ?pool" using Suc.prems(2) j by simp
  from Suc.IH [OF rest this] have "length rest = k" and "set rest \<subseteq> set ?pool" by simp_all
  moreover have "set ?pool \<subseteq> set pool"
    using set_take_subset [of ?j pool] set_drop_subset [of "Suc ?j" pool] by auto
  moreover have "pool ! ?j \<in> set pool" using j by simp
  ultimately show ?case using xs by auto
qed

lemma pick_from_population:
  assumes "pick residual 2 r = (tupl, r')" and "2 \<le> length residual"
  shows "tupl ! 0 \<in> set residual"
proof -
  from pick_length_set [OF assms] have "length tupl = 2" and "set tupl \<subseteq> set residual"
    by simp_all
  then show ?thesis by (cases tupl) auto
qed

section \<open>The setters\<close>

text \<open>
  A setter returns the object with the field assigned, or the exception. Every setter
  raises before it assigns, so an exception leaves the object as it was. An argument
  left at its default \<open>0\<close> is \<open>None\<close>.
\<close>

text \<open>\<open>xs[i] = v\<close>\<close>

definition setitem :: "'a list \<Rightarrow> int \<Rightarrow> 'a \<Rightarrow> error + 'a list" where
  "setitem xs i v =
     (if 0 \<le> i \<and> i < int (length xs) then Inr (xs[nat i := v])
      else if - int (length xs) \<le> i \<and> i < 0 then Inr (xs[nat (int (length xs) + i) := v])
      else Inl IndexError)"

definition set_walze :: "Enigma \<Rightarrow> int \<Rightarrow> string option \<Rightarrow> rng \<Rightarrow> error + Enigma \<times> rng" where
  "set_walze self num walze r =
     (case walze of
        None \<Rightarrow>
          (case random_sample (Enigma_alphabet self) (length (Enigma_alphabet self)) r of
             Inl e \<Rightarrow> Inl e
           | Inr (walze', r') \<Rightarrow>
               (case setitem (Enigma_walzen self) num walze' of Inl e \<Rightarrow> Inl e
                | Inr ws \<Rightarrow> Inr (self\<lparr>Enigma_walzen := ws\<rparr>, r')))
      | Some walze' \<Rightarrow>
          if length (Enigma_alphabet self) \<noteq> length walze' then Inl (InputError (Str walze'))
          else if \<exists>char \<in> set (Enigma_alphabet self). char \<notin> set walze'
            then Inl (InputError (Str walze'))
          else (case setitem (Enigma_walzen self) num walze' of Inl e \<Rightarrow> Inl e
                | Inr ws \<Rightarrow> Inr (self\<lparr>Enigma_walzen := ws\<rparr>, r)))"

text \<open>
  The random reflector: \<open>while residual != ''\<close>, pair two letters that are left.
  \<open>alphabet.index\<close> cannot raise here, the letters come from the alphabet.
\<close>

function random_umkehrwalze ::
  "string \<Rightarrow> string \<Rightarrow> string \<Rightarrow> rng \<Rightarrow> error + string \<times> rng" where
  "random_umkehrwalze alph residual uncle_walter r =
     (if residual = [] then Inr (uncle_walter, r)
      else
        (case random_sample residual 2 r of Inl e \<Rightarrow> Inl e
         | Inr (tupl, r') \<Rightarrow>
        (case py_index alph (tupl ! 0) of Inl e \<Rightarrow> Inl e
         | Inr index_a \<Rightarrow>
        (case py_index alph (tupl ! 1) of Inl e \<Rightarrow> Inl e
         | Inr index_b \<Rightarrow>
             random_umkehrwalze alph
               (replace_empty (replace_empty residual (tupl ! 0)) (tupl ! 1))
               ((uncle_walter[index_a := tupl ! 1])[index_b := tupl ! 0]) r'))))"
  by pat_completeness auto
termination
proof (relation "measure (\<lambda>(alph, residual, uncle_walter, r). length residual)")
  show "wf (measure (\<lambda>(alph, residual, uncle_walter, r). length residual))" by simp
next
  fix alph residual uncle_walter :: string and r :: rng
    and x2 :: "string \<times> rng" and x y and x2a x2b :: nat
  assume sampled: "random_sample residual 2 r = Inr x2" and x2: "(x, y) = x2"
  from sampled x2 have "pick residual 2 r = (x, y)" and "2 \<le> length residual"
    by (auto simp: random_sample_def split: if_splits)
  from pick_from_population [OF this] have "x ! 0 \<in> set residual" by simp
  then have "length (filter (\<lambda>c. c \<noteq> x ! 0) residual) < length residual"
    by (simp add: length_filter_less)
  moreover have "length (replace_empty (replace_empty residual (x ! 0)) (x ! 1))
      \<le> length (filter (\<lambda>c. c \<noteq> x ! 0) residual)"
    unfolding replace_empty_def by (rule length_filter_le)
  ultimately show "((alph, replace_empty (replace_empty residual (x ! 0)) (x ! 1),
      (uncle_walter[x2a := x ! 1])[x2b := x ! 0], y), alph, residual, uncle_walter, r)
      \<in> measure (\<lambda>(alph, residual, uncle_walter, r). length residual)"
    by simp
qed

text \<open>The loop \<open>for char in walze\<close> of set_umkehrwalze, on the characters still to visit.\<close>

fun check_umkehrwalze :: "string \<Rightarrow> string \<Rightarrow> string \<Rightarrow> error + unit" where
  "check_umkehrwalze alph walze [] = Inr ()"
| "check_umkehrwalze alph walze (char # rest) =
     (case py_index alph char of Inl e \<Rightarrow> Inl e
      | Inr k \<Rightarrow>
     (case item alph (int k) of Inl e \<Rightarrow> Inl e
      | Inr c \<Rightarrow>
          if c \<noteq> char then Inl (InputError (Str walze))
          else check_umkehrwalze alph walze rest))"

definition set_umkehrwalze :: "Enigma \<Rightarrow> string option \<Rightarrow> rng \<Rightarrow> error + Enigma \<times> rng" where
  "set_umkehrwalze self walze r =
     (case walze of
        None \<Rightarrow>
          (case random_umkehrwalze (Enigma_alphabet self) (Enigma_alphabet self)
                  (Enigma_alphabet self) r of
             Inl e \<Rightarrow> Inl e
           | Inr (uncle_walter, r') \<Rightarrow> Inr (self\<lparr>Enigma_umkehrwalze := uncle_walter\<rparr>, r'))
      | Some walze' \<Rightarrow>
          if length (Enigma_alphabet self) \<noteq> length walze' then Inl (InputError (Str walze'))
          else if \<exists>char \<in> set (Enigma_alphabet self). char \<notin> set walze'
            then Inl (InputError (Str walze'))
          else (case check_umkehrwalze (Enigma_alphabet self) walze' walze' of Inl e \<Rightarrow> Inl e
                | Inr _ \<Rightarrow> Inr (self\<lparr>Enigma_umkehrwalze := walze'\<rparr>, r)))"

text \<open>The random plugboard: \<open>while residual != '' and len(steckerbrett) < number\<close>.\<close>

function random_steckerbrett ::
  "int \<Rightarrow> string \<Rightarrow> string list \<Rightarrow> rng \<Rightarrow> error + string list \<times> rng" where
  "random_steckerbrett number residual sb r =
     (if residual \<noteq> [] \<and> int (length sb) < number then
        (case random_sample residual 2 r of Inl e \<Rightarrow> Inl e
         | Inr (tupl, r') \<Rightarrow>
             random_steckerbrett number
               (replace_empty (replace_empty residual (tupl ! 0)) (tupl ! 1))
               (sb @ [tupl]) r')
      else Inr (sb, r))"
  by pat_completeness auto
termination
proof (relation "measure (\<lambda>(number, residual, sb, r). length residual)")
  show "wf (measure (\<lambda>(number, residual, sb, r). length residual))" by simp
next
  fix number :: int and residual :: string and sb :: "string list" and r :: rng
    and x2 :: "string \<times> rng" and x y
  assume sampled: "random_sample residual 2 r = Inr x2" and x2: "(x, y) = x2"
  from sampled x2 have "pick residual 2 r = (x, y)" and "2 \<le> length residual"
    by (auto simp: random_sample_def split: if_splits)
  from pick_from_population [OF this] have "x ! 0 \<in> set residual" by simp
  then have "length (filter (\<lambda>c. c \<noteq> x ! 0) residual) < length residual"
    by (simp add: length_filter_less)
  moreover have "length (replace_empty (replace_empty residual (x ! 0)) (x ! 1))
      \<le> length (filter (\<lambda>c. c \<noteq> x ! 0) residual)"
    unfolding replace_empty_def by (rule length_filter_le)
  ultimately show "((number, replace_empty (replace_empty residual (x ! 0)) (x ! 1),
      sb @ [x], y), number, residual, sb, r)
      \<in> measure (\<lambda>(number, residual, sb, r). length residual)"
    by simp
qed

text \<open>
  The check of a given plugboard, on \<open>sb = ''.join(steckerbrett)\<close>: every character
  is in the alphabet and does not come again later.
\<close>

fun check_steckerbrett :: "string \<Rightarrow> string \<Rightarrow> bool" where
  "check_steckerbrett alph [] \<longleftrightarrow> True"
| "check_steckerbrett alph (char # rest) \<longleftrightarrow>
     \<not> (char \<notin> set alph \<or> char \<in> set rest) \<and> check_steckerbrett alph rest"

definition set_steckerbrett ::
  "Enigma \<Rightarrow> string list option \<Rightarrow> int \<Rightarrow> rng \<Rightarrow> error + Enigma \<times> rng" where
  "set_steckerbrett self steckerbrett number r =
     (case steckerbrett of
        None \<Rightarrow>
          (case random_steckerbrett number (Enigma_alphabet self) [] r of Inl e \<Rightarrow> Inl e
           | Inr (sb, r') \<Rightarrow> Inr (self\<lparr>Enigma_steckerbrett := sb\<rparr>, r'))
      | Some steckerbrett' \<Rightarrow>
          if check_steckerbrett (Enigma_alphabet self) (concat steckerbrett')
          then Inr (self\<lparr>Enigma_steckerbrett := steckerbrett'\<rparr>, r)
          else Inl (InputError (StrList steckerbrett')))"

text \<open>
  The random turnovers: \<open>rk = [0, 0, 0]\<close>, then \<open>rk[i] = random.randint(1, 26)\<close> for
  \<open>i\<close> below the number of rotors, from index \<open>i\<close> with \<open>k\<close> rotors still to do.
\<close>

fun random_ringkerben :: "nat \<Rightarrow> nat \<Rightarrow> int list \<Rightarrow> rng \<Rightarrow> error + int list \<times> rng" where
  "random_ringkerben i 0 rk r = Inr (rk, r)"
| "random_ringkerben i (Suc k) rk r =
     (case random_randint 1 26 r of (v, r') \<Rightarrow>
        (case setitem rk (int i) v of Inl e \<Rightarrow> Inl e
         | Inr rk' \<Rightarrow> random_ringkerben (Suc i) k rk' r'))"

text \<open>An empty list is the default argument, and is taken for it.\<close>

definition set_ringkerben :: "Enigma \<Rightarrow> int list \<Rightarrow> rng \<Rightarrow> error + Enigma \<times> rng" where
  "set_ringkerben self rk r =
     (if rk = [] then
        (case random_ringkerben 0 (nat (Enigma_num_walzen self)) [0, 0, 0] r of
           Inl e \<Rightarrow> Inl e
         | Inr (rk', r') \<Rightarrow> Inr (self\<lparr>Enigma_ringkerben := rk'\<rparr>, r'))
      else if int (length rk) \<noteq> Enigma_num_walzen self then Inl (InputError (IntList rk))
      else if \<exists>i \<in> set rk. i < 1 \<or> i > 26 then Inl (InputError (IntList rk))
      else Inr (self\<lparr>Enigma_ringkerben := rk\<rparr>, r))"

definition set_base :: "Enigma \<Rightarrow> string \<Rightarrow> error + Enigma" where
  "set_base self b =
     (if int (length b) \<noteq> Enigma_num_walzen self then Inl (InputError (Str b))
      else if \<exists>char \<in> set b. char \<notin> set (Enigma_alphabet self) then Inl (InputError (Str b))
      else Inr (self\<lparr>Enigma_base := b\<rparr>))"

section \<open>The constructor\<close>

text \<open>The loop \<open>for i in range(num_walzen): self.set_walze(i)\<close>, from \<open>i\<close> with \<open>k\<close> to do.\<close>

fun random_walzen :: "Enigma \<Rightarrow> nat \<Rightarrow> nat \<Rightarrow> rng \<Rightarrow> error + Enigma \<times> rng" where
  "random_walzen self i 0 r = Inr (self, r)"
| "random_walzen self i (Suc k) r =
     (case set_walze self (int i) None r of Inl e \<Rightarrow> Inl e
      | Inr (self', r') \<Rightarrow> random_walzen self' (Suc i) k r')"

text \<open>
  \<open>Enigma(num_walzen, random, alphabet)\<close>. \<open>alphabet[0]\<close> raises on an empty alphabet;
  \<open>range\<close> and the repetition of a string are empty for a negative number.
\<close>

definition Enigma_init :: "int \<Rightarrow> bool \<Rightarrow> string \<Rightarrow> rng \<Rightarrow> error + Enigma \<times> rng" where
  "Enigma_init n random alph r =
     (case item alph 0 of Inl e \<Rightarrow> Inl e
      | Inr a \<Rightarrow>
          (let self = \<lparr>Enigma_num_walzen = n,
                       Enigma_base = replicate (nat n) a,
                       Enigma_alphabet = alph,
                       Enigma_walzen = replicate (nat n) alph,
                       Enigma_umkehrwalze = alph,
                       Enigma_steckerbrett = [],
                       Enigma_ringkerben = replicate (nat n) (int (length alph))\<rparr>
           in if random then
                (case random_walzen self 0 (nat n) r of Inl e \<Rightarrow> Inl e
                 | Inr (self, r) \<Rightarrow>
                (case set_umkehrwalze self None r of Inl e \<Rightarrow> Inl e
                 | Inr (self, r) \<Rightarrow>
                (case set_steckerbrett self None 10 r of Inl e \<Rightarrow> Inl e
                 | Inr (self, r) \<Rightarrow> set_ringkerben self [] r)))
              else Inr (self, r)))"

section \<open>The doctests of encode\<close>

text \<open>Statements one after the other: the first exception ends the run.\<close>

definition and_then :: "error + 'a \<Rightarrow> ('a \<Rightarrow> error + 'b) \<Rightarrow> error + 'b" where
  "and_then m f = (case m of Inl e \<Rightarrow> Inl e | Inr v \<Rightarrow> f v)"

definition alphabet26 :: string where
  "alphabet26 = ''ABCDEFGHIJKLMNOPQRSTUVWXYZ''"

text \<open>The machine of the first doctest, with eight letters.\<close>

definition doctest_machine_1 :: "rng \<Rightarrow> error + Enigma \<times> rng" where
  "doctest_machine_1 r =
     and_then (Enigma_init 3 False ''ABCDEFGH'' r) (\<lambda>(enigma, r).
     and_then (set_walze enigma 0 (Some ''BDGCAEFH'') r) (\<lambda>(enigma, r).
     and_then (set_walze enigma 1 (Some ''FBEAGCHD'') r) (\<lambda>(enigma, r).
     and_then (set_walze enigma 2 (Some ''FDEABGCH'') r) (\<lambda>(enigma, r).
     set_umkehrwalze enigma (Some ''HFGEDBCA'') r))))"

text \<open>The machine of the second doctest, with the default alphabet.\<close>

definition doctest_machine_2 :: "rng \<Rightarrow> error + Enigma \<times> rng" where
  "doctest_machine_2 r =
     and_then (Enigma_init 3 False alphabet26 r) (\<lambda>(enigma, r).
     and_then (set_walze enigma 0 (Some ''BDFHJLCPRTXVZNYEIWGAKMUSQO'') r) (\<lambda>(enigma, r).
     and_then (set_walze enigma 1 (Some ''AJDKSIRUXBLHWTMCQGZNPYFVOE'') r) (\<lambda>(enigma, r).
     and_then (set_walze enigma 2 (Some ''EKMFLGDQVZNTOWYHXUSPAIBRCJ'') r) (\<lambda>(enigma, r).
     and_then (set_umkehrwalze enigma (Some ''YRUHQSLDPXNGOKMIEBFZCWVJAT'') r) (\<lambda>(enigma, r).
     and_then (set_base enigma ''LCM'') (\<lambda>enigma.
     set_ringkerben enigma [22, 5, 1] r))))))"

text \<open>The objects these runs build.\<close>

definition enigma_1 :: Enigma where
  "enigma_1 =
     \<lparr>Enigma_num_walzen = 3, Enigma_base = ''AAA'', Enigma_alphabet = ''ABCDEFGH'',
      Enigma_walzen = [''BDGCAEFH'', ''FBEAGCHD'', ''FDEABGCH''],
      Enigma_umkehrwalze = ''HFGEDBCA'', Enigma_steckerbrett = [],
      Enigma_ringkerben = [8, 8, 8]\<rparr>"

definition enigma_2 :: Enigma where
  "enigma_2 =
     \<lparr>Enigma_num_walzen = 3, Enigma_base = ''LCM'', Enigma_alphabet = alphabet26,
      Enigma_walzen = [''BDFHJLCPRTXVZNYEIWGAKMUSQO'', ''AJDKSIRUXBLHWTMCQGZNPYFVOE'',
        ''EKMFLGDQVZNTOWYHXUSPAIBRCJ''],
      Enigma_umkehrwalze = ''YRUHQSLDPXNGOKMIEBFZCWVJAT'', Enigma_steckerbrett = [],
      Enigma_ringkerben = [22, 5, 1]\<rparr>"

section \<open>Notions of the specification\<close>

text \<open>
  A wiring is exactly a permutation of the alphabet: it has the alphabet's length and
  every symbol of the alphabet appears in it exactly once.
\<close>

definition spec_permutation :: "string \<Rightarrow> string \<Rightarrow> bool" where
  "spec_permutation alph w \<longleftrightarrow>
     length w = length alph \<and> (\<forall>c \<in> set alph. count_list w c = 1)"

text \<open>A generator for the runs that draw nothing from it.\<close>

definition no_random :: rng where
  "no_random = (\<lambda>i. 0)"


text \<open>The machine of the second doctest with three plugs.\<close>

definition enigma_3 :: Enigma where
  "enigma_3 = enigma_2\<lparr>Enigma_steckerbrett := [''EN'', ''IG'', ''MA'']\<rparr>"

section \<open>Notions for the involution\<close>

text \<open>
  The alphabets that \<open>encode\<close> is written for: the first letters of A..Z, in order.
  The program turns a letter into a position by \<open>ord(char) - 65\<close> throughout.
\<close>

definition standard_alphabet :: "string \<Rightarrow> bool" where
  "standard_alphabet alph \<longleftrightarrow> alph \<noteq> [] \<and> alph = take (length alph) alphabet26"

text \<open>
  A reflector wiring is an involution: it has the alphabet's length, and when the symbol
  at a position of the alphabet is wired to \<open>u\<close>, then \<open>u\<close> is wired to that symbol.
\<close>

definition involutive :: "string \<Rightarrow> string \<Rightarrow> bool" where
  "involutive alph ukw \<longleftrightarrow>
     length ukw = length alph \<and>
     (\<forall>(a, u) \<in> set (zip alph ukw). (u, a) \<in> set (zip alph ukw))"

text \<open>A plugboard of disjoint pairs of symbols of the alphabet.\<close>

definition plug_pairs :: "string \<Rightarrow> string list \<Rightarrow> bool" where
  "plug_pairs alph sb \<longleftrightarrow>
     (\<forall>stecker \<in> set sb. length stecker = 2) \<and> distinct (concat sb) \<and>
     set (concat sb) \<subseteq> set alph"

text \<open>
  A valid configuration of the machine with three rotors: permutations as rotors, an
  involution as reflector, disjoint plugs, one base letter and one turnover for each
  rotor.
\<close>

definition valid_configuration :: "Enigma \<Rightarrow> bool" where
  "valid_configuration self \<longleftrightarrow>
     standard_alphabet (Enigma_alphabet self) \<and>
     length (Enigma_walzen self) = 3 \<and>
     (\<forall>walze \<in> set (Enigma_walzen self). spec_permutation (Enigma_alphabet self) walze) \<and>
     involutive (Enigma_alphabet self) (Enigma_umkehrwalze self) \<and>
     plug_pairs (Enigma_alphabet self) (Enigma_steckerbrett self) \<and>
     length (Enigma_base self) = 3 \<and>
     set (Enigma_base self) \<subseteq> set (Enigma_alphabet self) \<and>
     length (Enigma_ringkerben self) = 3"

text \<open>The letters on a rotor, as \<open>walze_curr\<close> computes them when nothing raises.\<close>

definition letters :: "nat \<Rightarrow> int list \<Rightarrow> int list" where
  "letters n rel = map (\<lambda>(i, num). (num + int i) mod int n + 65) (enumerate 0 rel)"

text \<open>A rotor whose letters are the first \<open>n\<close> letters of A..Z, each once.\<close>

definition good :: "nat \<Rightarrow> int list \<Rightarrow> bool" where
  "good n L \<longleftrightarrow> length L = n \<and> distinct L \<and> (\<forall>x \<in> set L. 65 \<le> x \<and> x < 65 + int n)"

definition rotor_ok :: "nat \<Rightarrow> int list \<Rightarrow> bool" where
  "rotor_ok n rel \<longleftrightarrow> length rel = n \<and> distinct (letters n rel)"

text \<open>The partner of a symbol on the plugboard.\<close>

definition plug :: "string list \<Rightarrow> char \<Rightarrow> char" where
  "plug sb c = hd (stecker_out sb c)"

text \<open>
  A machine over the alphabet A, C, B, D: the rotors set by the constructor, and the
  reflector that swaps A with C and B with D.
\<close>

definition enigma_4 :: Enigma where
  "enigma_4 =
     \<lparr>Enigma_num_walzen = 3, Enigma_base = ''AAA'', Enigma_alphabet = ''ACBD'',
      Enigma_walzen = [''ACBD'', ''ACBD'', ''ACBD''],
      Enigma_umkehrwalze = ''CADB'', Enigma_steckerbrett = [],
      Enigma_ringkerben = [4, 4, 4]\<rparr>"

section \<open>The doctests hold\<close>

lemma doctest_machine_1_built: "doctest_machine_1 r = Inr (enigma_1, r)"
  by (simp add: doctest_machine_1_def Enigma_init_def and_then_def set_walze_def
      set_umkehrwalze_def setitem_def item_def enigma_1_def eval_nat_numeral)

lemma doctest_machine_2_built: "doctest_machine_2 r = Inr (enigma_2, r)"
  by (simp add: doctest_machine_2_def alphabet26_def Enigma_init_def and_then_def
      set_walze_def set_umkehrwalze_def set_base_def set_ringkerben_def setitem_def item_def
      enigma_2_def eval_nat_numeral)

lemma encode_enigma_1_A: "encode enigma_1 ''A'' = Inr ''G''"
  by code_simp

lemma encode_enigma_2_message: "encode enigma_2 ''QMJIDO MZWZJFJR'' = Inr ''ENIGMAREVEALED''"
  by code_simp

text \<open>
  C2. The two doctests of \<open>encode\<close>: the eight-letter machine, built by the setters
  from the constructor's defaults (base AAA, no plugboard), encodes A as G; the machine
  with the default alphabet, base LCM and turnovers 22, 5, 1 encodes QMJIDO MZWZJFJR as
  ENIGMAREVEALED.
\<close>

theorem encode_doctests:
  "and_then (doctest_machine_1 r) (\<lambda>(enigma, r). encode enigma ''A'') = Inr ''G'' \<and>
   and_then (doctest_machine_2 r) (\<lambda>(enigma, r). encode enigma ''QMJIDO MZWZJFJR'')
     = Inr ''ENIGMAREVEALED''"
  by (simp add: doctest_machine_1_built doctest_machine_2_built and_then_def
      encode_enigma_1_A encode_enigma_2_message)

section \<open>set_walze\<close>

lemma covers_distinct:
  assumes "distinct alph" and "length w = length alph" and "set alph \<subseteq> set w"
  shows "distinct w \<and> set w = set alph"
proof -
  have "card (set alph) = length alph" using assms(1) by (simp add: distinct_card)
  moreover have "card (set alph) \<le> card (set w)" using assms(3) by (simp add: card_mono)
  moreover have "card (set w) \<le> length w" by (rule card_length)
  ultimately have c: "card (set w) = length w" and "card (set alph) = card (set w)"
    using assms(2) by simp_all
  then have "set alph = set w" using assms(3) by (simp add: card_subset_eq)
  with c show ?thesis by (simp add: card_distinct)
qed

lemma distinct_count_list_1: "distinct xs \<Longrightarrow> x \<in> set xs \<Longrightarrow> count_list xs x = 1"
  by (induction xs) auto

lemma spec_permutation_iff:
  assumes "distinct alph"
  shows "spec_permutation alph w \<longleftrightarrow>
    length alph = length w \<and> \<not> (\<exists>c \<in> set alph. c \<notin> set w)"
proof
  assume p: "spec_permutation alph w"
  then have "\<forall>c \<in> set alph. count_list w c \<noteq> 0" by (simp add: spec_permutation_def)
  then have "\<forall>c \<in> set alph. c \<in> set w" by (simp add: count_list_0_iff)
  with p show "length alph = length w \<and> \<not> (\<exists>c \<in> set alph. c \<notin> set w)"
    by (simp add: spec_permutation_def)
next
  assume a: "length alph = length w \<and> \<not> (\<exists>c \<in> set alph. c \<notin> set w)"
  then have "set alph \<subseteq> set w" by auto
  from covers_distinct [OF assms _ this] a have "distinct w" and "set w = set alph" by simp_all
  then have "\<forall>c \<in> set alph. count_list w c = 1" by (simp add: distinct_count_list_1)
  with a show "spec_permutation alph w" by (simp add: spec_permutation_def)
qed

text \<open>
  C9. Over an alphabet of distinct symbols, set_walze with a given wiring raises
  InputError exactly when the wiring is not a permutation of the alphabet (same length,
  every symbol exactly once); the exception comes before the assignment, so the rotor
  stays as it was. A permutation goes on to the assignment \<open>walzen[num] = walze\<close>.
\<close>

theorem set_walze_checks_permutation:
  assumes "distinct (Enigma_alphabet self)"
  shows "(set_walze self num (Some w) r = Inl (InputError (Str w))
            \<longleftrightarrow> \<not> spec_permutation (Enigma_alphabet self) w) \<and>
         (spec_permutation (Enigma_alphabet self) w \<longrightarrow>
            set_walze self num (Some w) r =
              (case setitem (Enigma_walzen self) num w of Inl e \<Rightarrow> Inl e
               | Inr ws \<Rightarrow> Inr (self\<lparr>Enigma_walzen := ws\<rparr>, r)))"
  using spec_permutation_iff [OF assms, of w]
  by (auto simp: set_walze_def setitem_def split: sum.splits if_splits)

text \<open>
  On the eight-letter machine: a wiring that misses H, and one that has A twice in its
  place, are rejected; a permutation is stored.
\<close>

theorem set_walze_checks_permutation_witness:
  "distinct (Enigma_alphabet enigma_1) \<and>
   set_walze enigma_1 0 (Some ''BDGCAEF'') no_random = Inl (InputError (Str ''BDGCAEF'')) \<and>
   set_walze enigma_1 0 (Some ''BDGCAEFA'') no_random = Inl (InputError (Str ''BDGCAEFA'')) \<and>
   set_walze enigma_1 0 (Some ''HGFEDCBA'') no_random =
     Inr (enigma_1\<lparr>Enigma_walzen := [''HGFEDCBA'', ''FBEAGCHD'', ''FDEABGCH'']\<rparr>, no_random)"
  using set_walze_checks_permutation [of enigma_1 0 "''BDGCAEF''" no_random]
    set_walze_checks_permutation [of enigma_1 0 "''BDGCAEFA''" no_random]
    set_walze_checks_permutation [of enigma_1 0 "''HGFEDCBA''" no_random]
  by (simp add: enigma_1_def spec_permutation_def setitem_def)

section \<open>set_umkehrwalze\<close>

text \<open>
  C6. The third loop of set_umkehrwalze compares \<open>alphabet[alphabet.index(char)]\<close> with
  \<open>char\<close>, which are always equal, so it rejects nothing. On the machine of the second
  doctest the alphabet itself, where every symbol maps to itself, is accepted as a
  reflector, and so is the alphabet shifted by one place, which has no fixed point but is
  not its own inverse.
\<close>

theorem set_umkehrwalze_accepts_any_permutation:
  "set_umkehrwalze enigma_2 (Some alphabet26) r
     = Inr (enigma_2\<lparr>Enigma_umkehrwalze := alphabet26\<rparr>, r) \<and>
   set_umkehrwalze enigma_2 (Some ''BCDEFGHIJKLMNOPQRSTUVWXYZA'') r
     = Inr (enigma_2\<lparr>Enigma_umkehrwalze := ''BCDEFGHIJKLMNOPQRSTUVWXYZA''\<rparr>, r)"
  by (simp add: set_umkehrwalze_def enigma_2_def alphabet26_def item_def)

section \<open>The constructor\<close>




section \<open>set_ringkerben\<close>

text \<open>
  C8, as the code has it. set_ringkerben with a list that is not empty raises InputError
  exactly when the list's length differs from the number of rotors or a value is outside
  1..26; the bound is 26 whatever the alphabet. Otherwise the list is stored.
\<close>

theorem set_ringkerben_checks:
  assumes "rk \<noteq> []"
  shows "set_ringkerben self rk r =
    (if int (length rk) \<noteq> Enigma_num_walzen self \<or> (\<exists>i \<in> set rk. i < 1 \<or> 26 < i)
     then Inl (InputError (IntList rk))
     else Inr (self\<lparr>Enigma_ringkerben := rk\<rparr>, r))"
  using assms by (simp add: set_ringkerben_def)

text \<open>With the eight letters of the first doctest, the turnover 9 is accepted.\<close>

theorem set_ringkerben_counterexample:
  "length (Enigma_alphabet enigma_1) = 8 \<and>
   set_ringkerben enigma_1 [9, 9, 9] no_random
     = Inr (enigma_1\<lparr>Enigma_ringkerben := [9, 9, 9]\<rparr>, no_random)"
  by (simp add: set_ringkerben_def enigma_1_def)

text \<open>On the same machine 26 is accepted and 27 is rejected.\<close>

theorem set_ringkerben_checks_witness:
  "[26, 1, 9] \<noteq> ([] :: int list) \<and>
   set_ringkerben enigma_1 [26, 1, 9] no_random
     = Inr (enigma_1\<lparr>Enigma_ringkerben := [26, 1, 9]\<rparr>, no_random) \<and>
   set_ringkerben enigma_1 [27, 1, 9] no_random = Inl (InputError (IntList [27, 1, 9]))"
  using set_ringkerben_checks [of "[26, 1, 9]" enigma_1 no_random]
    set_ringkerben_checks [of "[27, 1, 9]" enigma_1 no_random]
  by (simp add: enigma_1_def)

section \<open>encode and the object\<close>


section \<open>The loop of encode\<close>

lemma encode_loop_append:
  "encode_loop self w c (xs @ ys) =
     (case encode_loop self w c xs of Inl e \<Rightarrow> Inl e
      | Inr (out1, w', c') \<Rightarrow>
          (case encode_loop self w' c' ys of Inl e \<Rightarrow> Inl e
           | Inr (out2, end_state) \<Rightarrow> Inr (out1 @ out2, end_state)))"
proof (induction xs arbitrary: w c)
  case Nil
  show ?case by (simp split: sum.splits)
next
  case (Cons x xs)
  show ?case
    by (simp add: Cons.IH Let_def split: sum.splits prod.splits)
qed

lemma upper_append: "upper (m1 @ m2) = upper m1 @ upper m2"
  by (simp add: upper_def)

lemma encode_loop_skips:
  assumes "\<forall>u \<in> set us. py_ord u - 65 < 0 \<or> 25 < py_ord u - 65"
  shows "encode_loop self w c us = Inr ([], w, c)"
  using assms by (induction us) auto







lemma encode_enigma_3_back: "encode enigma_3 ''DATBBQVPQV'' = Inr ''HELLOWORLD''"
  by code_simp




text \<open>
  What is skipped is decided by A..Z, not by the alphabet: on the eight-letter machine
  the letter Z is looked up on the rotors, which have eight positions.
\<close>

lemma encode_enigma_1_Z: "encode enigma_1 ''Z'' = Inl IndexError"
  by code_simp

text \<open>
  C4, as the code has it. A character whose upper-case form has nothing in A..Z (a
  space, a digit, a sign) is left out of the output, moves no rotor and raises nothing:
  the loop goes on from it with the rotors and counters it came with, and \<open>encode\<close>
  returns what it returns for the message without that character.
\<close>

theorem skipped_characters:
  assumes "\<forall>u \<in> set (upper_char ch). py_ord u - 65 < 0 \<or> 25 < py_ord u - 65"
  shows "encode_flags self (m1 @ ch # m2) v vv = encode_flags self (m1 @ m2) v vv \<and>
    (\<forall>u \<in> set (upper_char ch). \<forall>w c rest.
       encode_loop self w c (u # rest) = encode_loop self w c rest)"
proof -
  have "upper (m1 @ ch # m2) = upper m1 @ upper_char ch @ upper m2"
    by (simp add: upper_def)
  then have eq: "encode_loop self w c (upper (m1 @ ch # m2)) = encode_loop self w c (upper (m1 @ m2))"
    for w c
    by (simp add: encode_loop_append [of _ _ _ "upper m1"] encode_loop_append [of _ _ _ "upper_char ch"]
        encode_loop_skips [OF assms] upper_append split: sum.splits prod.splits)
  have "encode_flags self (m1 @ ch # m2) v vv = encode_flags self (m1 @ m2) v vv"
    by (simp add: encode_flags_def eq cong: sum.case_cong)
  moreover have "\<forall>u \<in> set (upper_char ch). \<forall>w c rest.
       encode_loop self w c (u # rest) = encode_loop self w c rest"
    using assms by auto
  ultimately show ?thesis by simp
qed

text \<open>The second doctest with and without its space.\<close>

theorem skipped_characters_witness:
  "upper_char (CHR '' '') = '' '' \<and> py_ord (CHR '' '') - 65 < 0 \<and>
   encode enigma_2 ''QMJIDO MZWZJFJR'' = encode enigma_2 ''QMJIDOMZWZJFJR''"
  using skipped_characters [of "CHR '' ''" enigma_2 "''QMJIDO''" "''MZWZJFJR''" False False]
  by (simp add: upper_char_def py_ord_def encode_def)

text \<open>
  In the second doctest the space at position 6 is not in the output at all; position 6
  of the output holds the next letter.
\<close>

theorem skipped_characters_counterexample:
  "encode enigma_2 ''QMJIDO MZWZJFJR'' = Inr ''ENIGMAREVEALED'' \<and>
   ''QMJIDO MZWZJFJR'' ! 6 = CHR '' '' \<and> ''ENIGMAREVEALED'' ! 6 = CHR ''R'' \<and>
   CHR '' '' \<notin> set ''ENIGMAREVEALED''"
  by (simp add: encode_enigma_2_message)



section \<open>The involution\<close>

subsection \<open>The alphabet\<close>

lemma alphabet26_ord: "map py_ord alphabet26 = map int [65..<91]"
  by (simp add: alphabet26_def py_ord_def upt_rec)

lemma upt_int_nth: "i < b - a \<Longrightarrow> map int [a..<b] ! i = int (a + i)"
  by simp

lemma standard_length:
  assumes "standard_alphabet alph"
  shows "0 < length alph \<and> length alph \<le> 26"
proof -
  from assms have "alph \<noteq> []" and eq: "alph = take (length alph) alphabet26"
    by (simp_all add: standard_alphabet_def)
  have "length (take (length alph) alphabet26) \<le> length alphabet26" by simp
  with eq have "length alph \<le> length alphabet26" by simp
  with \<open>alph \<noteq> []\<close> show ?thesis by (simp add: alphabet26_def)
qed

lemma standard_nth:
  assumes "standard_alphabet alph" and "i < length alph"
  shows "py_ord (alph ! i) = 65 + int i"
proof -
  from assms(1) have eq: "alph = take (length alph) alphabet26"
    by (simp add: standard_alphabet_def)
  from standard_length [OF assms(1)] assms(2) have i: "i < 26" by simp
  have len: "length alphabet26 = 26" by (simp add: alphabet26_def)
  have "alph ! i = take (length alph) alphabet26 ! i" using eq by simp
  also have "\<dots> = alphabet26 ! i" using assms(2) by simp
  finally have "py_ord (alph ! i) = py_ord (alphabet26 ! i)" by simp
  also have "\<dots> = map py_ord alphabet26 ! i" using i len by simp
  also have "\<dots> = map int [65..<91] ! i" by (simp only: alphabet26_ord)
  also have "\<dots> = int (65 + i)" using i by (intro upt_int_nth) simp
  finally show ?thesis by simp
qed

lemma py_ord_inj: "py_ord a = py_ord b \<Longrightarrow> a = b"
  by (simp add: py_ord_def)

lemma standard_mem:
  assumes "standard_alphabet alph" and "c \<in> set alph"
  shows "0 \<le> py_ord c - 65 \<and> py_ord c - 65 < int (length alph) \<and>
    alph ! nat (py_ord c - 65) = c"
proof -
  from assms(2) obtain i where i: "i < length alph" and c: "alph ! i = c"
    by (auto simp: in_set_conv_nth)
  from standard_nth [OF assms(1) i] c have "py_ord c = 65 + int i" by simp
  with i c show ?thesis by simp
qed

lemma standard_nth_eq:
  assumes "standard_alphabet alph" and "i < length alph" and "py_ord c = 65 + int i"
  shows "alph ! i = c"
  using standard_nth [OF assms(1,2)] assms(3) by (simp add: py_ord_inj)

lemma standard_distinct:
  assumes "standard_alphabet alph"
  shows "distinct alph"
proof -
  have "distinct alphabet26" by (simp add: alphabet26_def)
  then have "distinct (take (length alph) alphabet26)" by (rule distinct_take)
  with assms show ?thesis by (simp add: standard_alphabet_def)
qed

subsection \<open>The letters on the rotors\<close>

lemma collect_map:
  assumes "\<forall>x \<in> set xs. f x = Inr (g x)"
  shows "collect (map f xs) = Inr (map g xs)"
  using assms by (induction xs) simp_all

lemma walze_curr_letters:
  assumes "0 < length alph" and "length alph \<le> 26"
  shows "walze_curr alph rel = Inr (letters (length alph) rel)"
proof -
  have "py_chr (v mod int (length alph) + 65) = Inr (v mod int (length alph) + 65)" for v
  proof -
    have "0 \<le> v mod int (length alph)" and "v mod int (length alph) < int (length alph)"
      using assms(1) by simp_all
    with assms(2) show ?thesis by (simp add: py_chr_def)
  qed
  then show ?thesis
    unfolding walze_curr_def letters_def using assms(1)
    by (intro collect_map) (auto simp: case_prod_beta)
qed

lemma walzen_curr_letters:
  assumes "0 < length alph" and "length alph \<le> 26"
  shows "walzen_curr alph walzen = Inr (map (letters (length alph)) walzen)"
  unfolding walzen_curr_def
  by (intro collect_map) (simp add: walze_curr_letters [OF assms])

lemma letters_good:
  assumes "0 < n" and "rotor_ok n rel"
  shows "good n (letters n rel)"
proof -
  have "\<forall>x \<in> set (letters n rel). 65 \<le> x \<and> x < 65 + int n"
    using assms(1) by (auto simp: letters_def)
  with assms(2) show ?thesis by (simp add: good_def rotor_ok_def letters_def)
qed

lemma good_set:
  assumes "good n L"
  shows "set L = {65 ..< 65 + int n}"
proof -
  from assms have sub: "set L \<subseteq> {65 ..< 65 + int n}" by (auto simp: good_def)
  from assms have "card (set L) = n" by (simp add: good_def distinct_card)
  then have "card (set L) = card {65 ..< 65 + int n}" by simp
  with sub show ?thesis by (simp add: card_subset_eq)
qed

lemma py_index_nth: "distinct L \<Longrightarrow> i < length L \<Longrightarrow> py_index L (L ! i) = Inr i"
proof (induction L arbitrary: i)
  case Nil
  then show ?case by simp
next
  case (Cons x L)
  then show ?case by (cases i) auto
qed

lemma py_index_found:
  "v \<in> set L \<Longrightarrow> \<exists>j. py_index L v = Inr j \<and> j < length L \<and> L ! j = v"
  by (induction L) auto

subsection \<open>Forward and backward through the rotors\<close>

lemma backward_append:
  "backward alph (A @ B) c =
     (case backward alph A c of Inl e \<Rightarrow> Inl e | Inr c' \<Rightarrow> backward alph B c')"
  by (induction A arbitrary: c) (simp_all split: sum.splits)

lemma forward_inside:
  assumes "good n L" and "0 \<le> x" and "x < int n"
  shows "item L x = Inr (L ! nat x) \<and> 0 \<le> L ! nat x - 65 \<and> L ! nat x - 65 < int n"
proof -
  from assms have len: "nat x < length L" by (simp add: good_def)
  then have "L ! nat x \<in> set L" by simp
  with assms(1) have "65 \<le> L ! nat x \<and> L ! nat x < 65 + int n" by (simp add: good_def)
  moreover from len assms(2) have "item L x = Inr (L ! nat x)" by (simp add: item_def)
  ultimately show ?thesis by simp
qed

lemma backward_one:
  assumes std: "standard_alphabet alph" and L: "good (length alph) L"
    and x: "x < length alph" and c: "py_ord c = L ! x"
  shows "backward alph [L] c = Inr (alph ! x)"
proof -
  from L x have "py_index L (L ! x) = Inr x" by (simp add: good_def py_index_nth)
  with c x show ?thesis by (simp add: item_def)
qed

lemma forward_backward:
  assumes std: "standard_alphabet alph" and Ls: "\<forall>L \<in> set Ls. good (length alph) L"
  shows "0 \<le> x \<Longrightarrow> x < int (length alph) \<Longrightarrow>
    \<exists>y. forward Ls x = Inr y \<and> 0 \<le> y \<and> y < int (length alph) \<and>
      (\<forall>c. py_ord c = y + 65 \<longrightarrow> backward alph (rev Ls) c = Inr (alph ! nat x))"
  using Ls
proof (induction Ls arbitrary: x)
  case Nil
  have "alph ! nat x = c" if "py_ord c = x + 65" for c
    using standard_nth_eq [OF std, of "nat x" c] that Nil.prems by simp
  with Nil.prems show ?case by simp
next
  case (Cons L Ls)
  from Cons.prems have L: "good (length alph) L" and Ls: "\<forall>L \<in> set Ls. good (length alph) L"
    by simp_all
  let ?x1 = "L ! nat x - 65"
  from forward_inside [OF L Cons.prems(1,2)]
  have it: "item L x = Inr (L ! nat x)" and x1: "0 \<le> ?x1" "?x1 < int (length alph)"
    by simp_all
  from Cons.IH [OF x1 Ls] obtain y where
    fwd: "forward Ls ?x1 = Inr y" "0 \<le> y" "y < int (length alph)" and
    bwd: "\<forall>c. py_ord c = y + 65 \<longrightarrow> backward alph (rev Ls) c = Inr (alph ! nat ?x1)"
    by blast
  have "backward alph (rev (L # Ls)) c = Inr (alph ! nat x)" if c: "py_ord c = y + 65" for c
  proof -
    from bwd c have b1: "backward alph (rev Ls) c = Inr (alph ! nat ?x1)" by simp
    from x1 have "nat ?x1 < length alph" by simp
    from standard_nth [OF std this] x1 have "py_ord (alph ! nat ?x1) = L ! nat x" by simp
    moreover from Cons.prems have "nat x < length alph" by simp
    ultimately have "backward alph [L] (alph ! nat ?x1) = Inr (alph ! nat x)"
      using backward_one [OF std L] by simp
    with b1 show ?thesis by (simp add: backward_append)
  qed
  with fwd it show ?case by simp
qed

lemma backward_forward:
  assumes std: "standard_alphabet alph" and Ls: "\<forall>L \<in> set Ls. good (length alph) L"
    and c: "c \<in> set alph"
  shows "\<exists>c'. backward alph (rev Ls) c = Inr c' \<and> c' \<in> set alph \<and>
      forward Ls (py_ord c' - 65) = Inr (py_ord c - 65)"
  using Ls
proof (induction Ls)
  case Nil
  with c show ?case by simp
next
  case (Cons L Ls)
  from Cons.prems have L: "good (length alph) L" and Ls: "\<forall>L \<in> set Ls. good (length alph) L"
    by simp_all
  from Cons.IH [OF Ls] obtain c1 where
    c1: "backward alph (rev Ls) c = Inr c1" "c1 \<in> set alph" and
    f1: "forward Ls (py_ord c1 - 65) = Inr (py_ord c - 65)"
    by blast
  from standard_mem [OF std c1(2)] have "py_ord c1 \<in> {65 ..< 65 + int (length alph)}" by simp
  with good_set [OF L] have "py_ord c1 \<in> set L" by simp
  from py_index_found [OF this] obtain j where
    j: "py_index L (py_ord c1) = Inr j" "j < length L" "L ! j = py_ord c1"
    by blast
  from L j(2) have jn: "j < length alph" by (simp add: good_def)
  then have mem: "alph ! j \<in> set alph" by simp
  from j(1) jn have "backward alph [L] c1 = Inr (alph ! j)" by (simp add: item_def)
  with c1(1) have b: "backward alph (rev (L # Ls)) c = Inr (alph ! j)"
    by (simp add: backward_append)
  from standard_nth [OF std jn] have o: "py_ord (alph ! j) - 65 = int j" by simp
  from L jn have "item L (int j) = Inr (L ! j)" by (simp add: item_def good_def)
  with j(3) f1 o have "forward (L # Ls) (py_ord (alph ! j) - 65) = Inr (py_ord c - 65)"
    by simp
  with b mem show ?case by blast
qed

subsection \<open>The plugboard\<close>

lemma pairs_Cons:
  assumes "\<forall>stecker \<in> set (s # sb). length stecker = 2" and "distinct (concat (s # sb))"
  shows "\<exists>a b. s = [a, b] \<and> a \<noteq> b \<and> a \<notin> set (concat sb) \<and> b \<notin> set (concat sb)"
proof -
  from assms(1) have "length s = 2" by simp
  then obtain a b where s: "s = [a, b]"
    by (cases s; cases "tl s") auto
  with assms(2) show ?thesis by auto
qed

lemma plug_Nil: "plug [] c = c"
  by (simp add: plug_def)

lemma plug_Cons:
  "a \<noteq> b \<Longrightarrow> plug ([a, b] # sb) c = (if c = a then b else if c = b then a else plug sb c)"
  by (simp add: plug_def replace_empty_def)

lemma stecker_out_plug:
  assumes "\<forall>stecker \<in> set sb. length stecker = 2" and "distinct (concat sb)"
  shows "stecker_out sb c = [plug sb c]"
  using assms
proof (induction sb)
  case Nil
  show ?case by (simp add: plug_def)
next
  case (Cons s sb)
  from pairs_Cons [OF Cons.prems] obtain a b where s: "s = [a, b]" "a \<noteq> b" by blast
  from Cons.prems have "stecker_out sb c = [plug sb c]" by (intro Cons.IH) simp_all
  with s show ?case by (simp add: plug_def replace_empty_def)
qed

lemma stecker_in_plug:
  assumes "\<forall>stecker \<in> set sb. length stecker = 2" and "distinct (concat sb)"
  shows "stecker_in sb c (py_ord c - 65) = Inr (py_ord (plug sb c) - 65)"
  using assms
proof (induction sb)
  case Nil
  show ?case by (simp add: plug_def)
next
  case (Cons s sb)
  from pairs_Cons [OF Cons.prems] obtain a b where s: "s = [a, b]" "a \<noteq> b" by blast
  from Cons.prems have "stecker_in sb c (py_ord c - 65) = Inr (py_ord (plug sb c) - 65)"
    by (intro Cons.IH) simp_all
  with s show ?case by (simp add: plug_def replace_empty_def)
qed

lemma plug_range:
  assumes "\<forall>stecker \<in> set sb. length stecker = 2" and "distinct (concat sb)"
  shows "plug sb c = c \<or> plug sb c \<in> set (concat sb)"
  using assms
proof (induction sb)
  case Nil
  show ?case by (simp add: plug_Nil)
next
  case (Cons s sb)
  from pairs_Cons [OF Cons.prems] obtain a b where s: "s = [a, b]" "a \<noteq> b" by blast
  from Cons.prems have "plug sb c = c \<or> plug sb c \<in> set (concat sb)"
    by (intro Cons.IH) simp_all
  with s show ?case by (auto simp: plug_Cons)
qed

lemma plug_plug:
  assumes "\<forall>stecker \<in> set sb. length stecker = 2" and "distinct (concat sb)"
  shows "plug sb (plug sb c) = c"
  using assms
proof (induction sb)
  case Nil
  show ?case by (simp add: plug_Nil)
next
  case (Cons s sb)
  from pairs_Cons [OF Cons.prems] obtain a b where
    s: "s = [a, b]" "a \<noteq> b" and out: "a \<notin> set (concat sb)" "b \<notin> set (concat sb)"
    by blast
  from Cons.prems have rest: "\<forall>stecker \<in> set sb. length stecker = 2" "distinct (concat sb)"
    by simp_all
  from Cons.IH [OF rest] have ih: "plug sb (plug sb c) = c" .
  show ?case
  proof (cases "c = a \<or> c = b")
    case True
    with s show ?thesis by (auto simp: plug_Cons)
  next
    case False
    with plug_range [OF rest, of c] out have "plug sb c \<noteq> a" and "plug sb c \<noteq> b" by auto
    with False s ih show ?thesis by (simp add: plug_Cons)
  qed
qed

lemma plug_alphabet:
  assumes "plug_pairs alph sb" and "c \<in> set alph"
  shows "plug sb c \<in> set alph"
proof -
  from assms(1) have p: "\<forall>stecker \<in> set sb. length stecker = 2" "distinct (concat sb)"
    and sub: "set (concat sb) \<subseteq> set alph"
    by (simp_all add: plug_pairs_def)
  from plug_range [OF p, of c] sub assms(2) show ?thesis by auto
qed

subsection \<open>The reflector\<close>

lemma reflector:
  assumes std: "standard_alphabet alph" and inv: "involutive alph ukw"
    and y: "0 \<le> y" "y < int (length alph)"
  shows "item ukw y = Inr (ukw ! nat y) \<and> ukw ! nat y \<in> set alph \<and>
    0 \<le> py_ord (ukw ! nat y) - 65 \<and> py_ord (ukw ! nat y) - 65 < int (length alph) \<and>
    ukw ! nat (py_ord (ukw ! nat y) - 65) = alph ! nat y"
proof -
  from inv have len: "length ukw = length alph"
    and sym: "\<forall>(a, u) \<in> set (zip alph ukw). (u, a) \<in> set (zip alph ukw)"
    by (simp_all add: involutive_def)
  let ?i = "nat y"
  from y len have i: "?i < length alph" "?i < length ukw" by simp_all
  then have "(alph ! ?i, ukw ! ?i) \<in> set (zip alph ukw)"
    by (auto simp: in_set_zip)
  with sym have "(ukw ! ?i, alph ! ?i) \<in> set (zip alph ukw)" by auto
  then obtain j where j: "alph ! j = ukw ! ?i" "ukw ! j = alph ! ?i" "j < length alph"
    by (auto simp: in_set_zip)
  from standard_nth [OF std j(3)] j(1) have o: "py_ord (ukw ! ?i) - 65 = int j" by simp
  from j(1,3) have "ukw ! ?i \<in> set alph" by (metis nth_mem)
  moreover from y i have "item ukw y = Inr (ukw ! ?i)" by (simp add: item_def)
  ultimately show ?thesis using o j by simp
qed

subsection \<open>One character, twice\<close>

lemma chr_ord: "char_of (py_ord c) = c"
  by (simp add: py_ord_def)

lemma encode_char_steps:
  assumes "walzen_curr (Enigma_alphabet self) w = Inr Ls"
    and "stecker_in (Enigma_steckerbrett self) c (py_ord c - 65) = Inr x"
    and "forward Ls x = Inr y"
    and "item (Enigma_umkehrwalze self) y = Inr u"
    and "backward (Enigma_alphabet self) (rev Ls) u = Inr c1"
  shows "encode_char self w c = Inr (stecker_out (Enigma_steckerbrett self) c1)"
  using assms by (simp add: encode_char_def chr_ord)

lemma encode_char_involution:
  assumes std: "standard_alphabet (Enigma_alphabet self)"
    and inv: "involutive (Enigma_alphabet self) (Enigma_umkehrwalze self)"
    and pp: "plug_pairs (Enigma_alphabet self) (Enigma_steckerbrett self)"
    and w: "\<forall>rel \<in> set w. rotor_ok (length (Enigma_alphabet self)) rel"
    and c: "c \<in> set (Enigma_alphabet self)"
  shows "\<exists>d. encode_char self w c = Inr [d] \<and> d \<in> set (Enigma_alphabet self) \<and>
    encode_char self w d = Inr [c]"
proof -
  let ?alph = "Enigma_alphabet self" and ?sb = "Enigma_steckerbrett self"
  let ?ukw = "Enigma_umkehrwalze self"
  let ?n = "length ?alph"
  let ?Ls = "map (letters ?n) w"
  from standard_length [OF std] have n: "0 < ?n" "?n \<le> 26" by simp_all
  from walzen_curr_letters [OF n] have curr: "walzen_curr ?alph w = Inr ?Ls" .
  from w n(1) have good: "\<forall>L \<in> set ?Ls. good ?n L" by (simp add: letters_good)
  from pp have p: "\<forall>stecker \<in> set ?sb. length stecker = 2" "distinct (concat ?sb)"
    by (simp_all add: plug_pairs_def)
  let ?pc = "plug ?sb c"
  let ?x = "py_ord ?pc - 65"
  from plug_alphabet [OF pp c] have pc: "?pc \<in> set ?alph" .
  from standard_mem [OF std pc] have x: "0 \<le> ?x" "?x < int ?n" and xc: "?alph ! nat ?x = ?pc"
    by simp_all
  from forward_backward [OF std good x] obtain y where
    y: "forward ?Ls ?x = Inr y" "0 \<le> y" "y < int ?n" and
    bwd: "\<forall>c'. py_ord c' = y + 65 \<longrightarrow> backward ?alph (rev ?Ls) c' = Inr (?alph ! nat ?x)"
    by blast
  let ?u = "?ukw ! nat y"
  from reflector [OF std inv y(2,3)] have
    u: "item ?ukw y = Inr ?u" "?u \<in> set ?alph" and
    uu: "0 \<le> py_ord ?u - 65" "py_ord ?u - 65 < int ?n" "?ukw ! nat (py_ord ?u - 65) = ?alph ! nat y"
    by simp_all
  from backward_forward [OF std good u(2)] obtain c1 where
    c1: "backward ?alph (rev ?Ls) ?u = Inr c1" "c1 \<in> set ?alph" and
    f1: "forward ?Ls (py_ord c1 - 65) = Inr (py_ord ?u - 65)"
    by blast
  let ?d = "plug ?sb c1"
  have first: "encode_char self w c = Inr [?d]"
    using encode_char_steps [OF curr stecker_in_plug [OF p] y(1) u(1) c1(1)]
    by (simp add: stecker_out_plug [OF p])
  have d: "?d \<in> set ?alph" by (rule plug_alphabet [OF pp c1(2)])
  have pd: "plug ?sb ?d = c1" by (rule plug_plug [OF p])
  have in_d: "stecker_in ?sb ?d (py_ord ?d - 65) = Inr (py_ord c1 - 65)"
    using stecker_in_plug [OF p, of ?d] pd by simp
  have refl: "item ?ukw (py_ord ?u - 65) = Inr (?alph ! nat y)"
    using reflector [OF std inv uu(1,2)] uu(3) by simp
  from y(2,3) have "nat y < ?n" by simp
  from standard_nth [OF std this] y(2) have "py_ord (?alph ! nat y) = y + 65" by simp
  with bwd xc have b2: "backward ?alph (rev ?Ls) (?alph ! nat y) = Inr ?pc" by simp
  have "encode_char self w ?d = Inr [plug ?sb ?pc]"
    using encode_char_steps [OF curr in_d f1 refl b2]
    by (simp add: stecker_out_plug [OF p])
  then have second: "encode_char self w ?d = Inr [c]" by (simp add: plug_plug [OF p])
  from first d second show ?thesis by blast
qed

subsection \<open>Stepping keeps the rotors in order\<close>

lemma letters_nth:
  "i < length rel \<Longrightarrow> letters n rel ! i = (rel ! i + int i) mod int n + 65"
  by (simp add: letters_def nth_enumerate_eq)

lemma length_letters: "length (letters n rel) = length rel"
  by (simp add: letters_def)

lemma Suc_mod_inj:
  assumes "i < n" and "j < n" and "Suc i mod n = Suc j mod n"
  shows "i = j"
  using assms by (auto simp: mod_Suc split: if_splits)

lemma letters_rotate1:
  assumes n: "0 < n" and len: "length rel = n" and k: "k < n"
  shows "(letters n (rotate1 rel) ! k - 65 + 1) mod int n = letters n rel ! (Suc k mod n) - 65"
proof -
  let ?r = "rel ! (Suc k mod n)"
  from n have s: "Suc k mod n < n" by simp
  from k len have "rotate1 rel ! k = ?r" by (simp add: nth_rotate1)
  with k len have "letters n (rotate1 rel) ! k - 65 = (?r + int k) mod int n"
    by (simp add: letters_nth)
  then have "(letters n (rotate1 rel) ! k - 65 + 1) mod int n = ((?r + int k) mod int n + 1) mod int n"
    by simp
  also have "\<dots> = (?r + int k + 1) mod int n" by (simp add: mod_add_left_eq)
  also have "\<dots> = (?r + (int k + 1) mod int n) mod int n"
    by (simp add: mod_add_right_eq add.assoc)
  also have "(int k + 1) mod int n = int (Suc k mod n)"
    by (simp add: zmod_int add.commute)
  also have "(?r + int (Suc k mod n)) mod int n = letters n rel ! (Suc k mod n) - 65"
    using s len by (simp add: letters_nth)
  finally show ?thesis .
qed

lemma rotor_ok_rotate1:
  assumes n: "0 < n" and ok: "rotor_ok n rel"
  shows "rotor_ok n (rotate1 rel)"
proof -
  from ok have len: "length rel = n" and dist: "distinct (letters n rel)"
    by (simp_all add: rotor_ok_def)
  have "i = j" if i: "i < n" and j: "j < n"
    and eq: "letters n (rotate1 rel) ! i = letters n (rotate1 rel) ! j" for i j
  proof -
    from letters_rotate1 [OF n len i] letters_rotate1 [OF n len j] eq
    have "letters n rel ! (Suc i mod n) = letters n rel ! (Suc j mod n)" by simp
    moreover from n have "Suc i mod n < n" and "Suc j mod n < n" by simp_all
    ultimately have "Suc i mod n = Suc j mod n"
      using dist len by (simp add: nth_eq_iff_index_eq length_letters)
    with i j show ?thesis by (rule Suc_mod_inj)
  qed
  then have "distinct (letters n (rotate1 rel))"
    using len by (auto simp: distinct_conv_nth length_letters)
  with len show ?thesis by (simp add: rotor_ok_def)
qed

lemma rotor_ok_rotate: "0 < n \<Longrightarrow> rotor_ok n rel \<Longrightarrow> rotor_ok n (rotate k rel)"
  by (induction k) (simp_all add: rotor_ok_rotate1)

lemma rotate_walze_ok:
  assumes n: "0 < n" and k: "k < length w" and ok: "\<forall>rel \<in> set w. rotor_ok n rel"
  shows "\<exists>w'. rotate_walze w k = Inr w' \<and> length w' = length w \<and>
    (\<forall>rel \<in> set w'. rotor_ok n rel)"
proof -
  from k ok have okk: "rotor_ok n (w ! k)" by simp
  with n have "w ! k \<noteq> []" by (auto simp: rotor_ok_def)
  then obtain x xs where xs: "w ! k = x # xs" by (cases "w ! k") auto
  with k have r: "rotate_walze w k = Inr (w[k := rotate1 (w ! k)])"
    by (simp add: rotate_walze_def)
  have "set (w[k := rotate1 (w ! k)]) \<subseteq> insert (rotate1 (w ! k)) (set w)"
    by (rule set_update_subset_insert)
  with ok rotor_ok_rotate1 [OF n okk]
  have "\<forall>rel \<in> set (w[k := rotate1 (w ! k)]). rotor_ok n rel" by auto
  with r show ?thesis by simp
qed

lemma rotate_walzen_ok:
  assumes n: "0 < n" and len: "length w = 3" and ok: "\<forall>rel \<in> set w. rotor_ok n rel"
    and rk: "length rk = 3"
  shows "\<exists>w' c'. rotate_walzen rk w c = Inr (w', c') \<and> length w' = 3 \<and>
    (\<forall>rel \<in> set w'. rotor_ok n rel)"
proof -
  obtain c0 c1 c2 where c: "c = (c0, c1, c2)" by (cases c)
  from rk have rk0: "item rk 0 = Inr (rk ! 0)" and rk1: "item rk 1 = Inr (rk ! 1)"
    by (simp_all add: item_def)
  from rotate_walze_ok [OF n _ ok, of 0] len obtain w1 where
    w1: "rotate_walze w 0 = Inr w1" "length w1 = 3" "\<forall>rel \<in> set w1. rotor_ok n rel"
    by auto
  from rotate_walze_ok [OF n _ w1(3), of 1] w1(2) obtain w2 where
    w2: "rotate_walze w1 1 = Inr w2" "length w2 = 3" "\<forall>rel \<in> set w2. rotor_ok n rel"
    by auto
  from rotate_walze_ok [OF n _ w2(3), of 2] w2(2) obtain w3 where
    w3: "rotate_walze w2 2 = Inr w3" "length w3 = 3" "\<forall>rel \<in> set w3. rotor_ok n rel"
    by auto
  show ?thesis
    using w1 w2 w3 by (simp add: rotate_walzen_def c rk0 rk1 Let_def)
qed

subsection \<open>The rotors at the base\<close>

lemma spec_permutation_distinct:
  assumes "distinct alph" and "spec_permutation alph walze"
  shows "length walze = length alph \<and> distinct walze \<and> set walze = set alph"
proof -
  from spec_permutation_iff [OF assms(1)] assms(2)
  have "length alph = length walze" and "set alph \<subseteq> set walze" by auto
  with covers_distinct [OF assms(1), of walze] show ?thesis by simp
qed

lemma relation_rotor_ok:
  assumes std: "standard_alphabet alph" and perm: "spec_permutation alph walze"
  shows "rotor_ok (length alph) (relation_walze walze)"
proof -
  let ?n = "length alph"
  from spec_permutation_distinct [OF standard_distinct [OF std] perm]
  have len: "length walze = ?n" and dist: "distinct walze" and set: "set walze = set alph"
    by simp_all
  have "letters ?n (relation_walze walze) ! i = map py_ord walze ! i" if i: "i < ?n" for i
  proof -
    from i len set have "walze ! i \<in> set alph" by (metis nth_mem)
    from standard_mem [OF std this]
    have "(py_ord (walze ! i) - 65) mod int ?n = py_ord (walze ! i) - 65" by simp
    moreover have "relation_walze walze ! i = py_ord (walze ! i) - 65 - int i"
      using i len by (simp add: relation_walze_def nth_enumerate_eq)
    ultimately show ?thesis
      using i len by (simp add: letters_nth relation_walze_def)
  qed
  then have "letters ?n (relation_walze walze) = map py_ord walze"
    using len by (intro nth_equalityI) (simp_all add: length_letters relation_walze_def)
  moreover have "distinct (map py_ord walze)"
    using dist by (simp add: distinct_map inj_on_def py_ord_inj)
  ultimately show ?thesis using len by (simp add: rotor_ok_def relation_walze_def)
qed

lemma slice_rotate:
  assumes "0 \<le> index" and "index < int (length rel)"
  shows "slice_from rel index @ slice_to rel index = rotate (nat index) rel"
proof -
  from assms have "slice_bound rel index = nat index" by (simp add: slice_bound_def)
  moreover from assms have "nat index mod length rel = nat index" by simp
  ultimately show ?thesis
    by (simp add: slice_from_def slice_to_def rotate_drop_take [of "nat index" rel])
qed

lemma set_to_base_ok:
  assumes std: "standard_alphabet alph" and b: "set b \<subseteq> set alph"
  shows "\<forall>walze \<in> set wlz. spec_permutation alph walze \<Longrightarrow>
    \<forall>rel \<in> set acc. rotor_ok (length alph) rel \<Longrightarrow>
    i + length wlz \<le> 3 \<Longrightarrow> i + length wlz \<le> length b \<Longrightarrow>
    \<exists>w c'. set_to_base b i wlz acc c = Inr (w, c') \<and> length w = length acc + length wlz \<and>
      (\<forall>rel \<in> set w. rotor_ok (length alph) rel)"
proof (induction wlz arbitrary: i acc c)
  case Nil
  then show ?case by (cases c) simp
next
  case (Cons walze wlz)
  let ?n = "length alph"
  let ?index = "py_ord (b ! i) - 65"
  let ?rel = "relation_walze walze"
  let ?walze = "slice_from ?rel ?index @ slice_to ?rel ?index"
  from standard_length [OF std] have n: "0 < ?n" by simp
  from Cons.prems(4) have i: "i < length b" by simp
  then have it: "item b (int i) = Inr (b ! i)" by (simp add: item_def)
  from i b have "b ! i \<in> set alph" by auto
  from standard_mem [OF std this] have index: "0 \<le> ?index" "?index < int ?n" by simp_all
  from Cons.prems(1) have ok: "rotor_ok ?n ?rel" by (simp add: relation_rotor_ok [OF std])
  then have "length ?rel = ?n" by (simp add: rotor_ok_def)
  with index have "?walze = rotate (nat ?index) ?rel" by (simp add: slice_rotate)
  with ok n have "rotor_ok ?n ?walze" by (simp add: rotor_ok_rotate)
  with Cons.prems(2) have acc: "\<forall>rel \<in> set (acc @ [?walze]). rotor_ok ?n rel" by simp
  obtain c0 c1 c2 where c: "c = (c0, c1, c2)" by (cases c)
  from Cons.prems(3) have "i = 0 \<or> i = 1 \<or> i = 2" by auto
  then have "\<exists>c'. count_set c i ?index = Inr c'" by (auto simp: c)
  then obtain c' where c': "count_set c i ?index = Inr c'" by blast
  from Cons.prems have "\<forall>walze \<in> set wlz. spec_permutation alph walze"
    and "Suc i + length wlz \<le> 3" and "Suc i + length wlz \<le> length b"
    by simp_all
  from Cons.IH [OF this(1) acc this(2,3), of c'] obtain w c'' where
    res: "set_to_base b (Suc i) wlz (acc @ [?walze]) c' = Inr (w, c'')"
    "length w = length (acc @ [?walze]) + length wlz" "\<forall>rel \<in> set w. rotor_ok ?n rel"
    by blast
  obtain k0 k1 k2 where "c'' = (k0, k1, k2)" by (cases c'')
  with res it c' show ?case by (simp add: Let_def)
qed

subsection \<open>The message, twice\<close>

lemma encode_loop_involution:
  assumes std: "standard_alphabet (Enigma_alphabet self)"
    and inv: "involutive (Enigma_alphabet self) (Enigma_umkehrwalze self)"
    and pp: "plug_pairs (Enigma_alphabet self) (Enigma_steckerbrett self)"
    and rk: "length (Enigma_ringkerben self) = 3"
  shows "length w = 3 \<Longrightarrow> \<forall>rel \<in> set w. rotor_ok (length (Enigma_alphabet self)) rel \<Longrightarrow>
    set p \<subseteq> set (Enigma_alphabet self) \<Longrightarrow>
    \<exists>q st. encode_loop self w c p = Inr (q, st) \<and> set q \<subseteq> set (Enigma_alphabet self) \<and>
      encode_loop self w c q = Inr (p, st)"
proof (induction p arbitrary: w c)
  case Nil
  show ?case by simp
next
  case (Cons x p)
  let ?alph = "Enigma_alphabet self"
  from standard_length [OF std] have n: "0 < length ?alph" "length ?alph \<le> 26" by simp_all
  have letter: "0 \<le> py_ord a - 65 \<and> py_ord a - 65 \<le> 25" if "a \<in> set ?alph" for a
    using standard_mem [OF std that] n(2) by simp
  from Cons.prems(3) have x: "x \<in> set ?alph" and p: "set p \<subseteq> set ?alph" by simp_all
  from encode_char_involution [OF std inv pp Cons.prems(2) x] obtain d where
    d: "encode_char self w x = Inr [d]" "d \<in> set ?alph" "encode_char self w d = Inr [x]"
    by blast
  from rotate_walzen_ok [OF n(1) Cons.prems(1,2) rk, of c] obtain w' c' where
    rot: "rotate_walzen (Enigma_ringkerben self) w c = Inr (w', c')" and
    w': "length w' = 3" "\<forall>rel \<in> set w'. rotor_ok (length ?alph) rel"
    by blast
  from Cons.IH [OF w' p, of c'] obtain q st where
    q: "encode_loop self w' c' p = Inr (q, st)" "set q \<subseteq> set ?alph"
      "encode_loop self w' c' q = Inr (p, st)"
    by blast
  from letter [OF x] d(1) rot q(1) have "encode_loop self w c (x # p) = Inr (d # q, st)"
    by simp
  moreover from letter [OF d(2)] d(3) rot q(3)
  have "encode_loop self w c (d # q) = Inr (x # p, st)" by simp
  moreover from d(2) q(2) have "set (d # q) \<subseteq> set ?alph" by simp
  ultimately show ?case by blast
qed

lemma upper_char_capital:
  assumes "65 \<le> py_ord c" and "py_ord c \<le> 90"
  shows "upper_char c = [c]"
proof -
  have "int (of_char c) = py_ord c" by (simp add: py_ord_def of_nat_of_char)
  with assms have "65 \<le> (of_char c :: nat)" and "(of_char c :: nat) \<le> 90" by linarith+
  then show ?thesis by (simp add: upper_char_def)
qed

lemma upper_standard:
  assumes std: "standard_alphabet alph" and p: "set p \<subseteq> set alph"
  shows "upper p = p"
proof -
  have "upper_char a = [a]" if "a \<in> set p" for a
  proof -
    from that p have "a \<in> set alph" by auto
    from standard_mem [OF std this] standard_length [OF std] show ?thesis
      by (intro upper_char_capital) simp_all
  qed
  then show ?thesis unfolding upper_def by (induction p) simp_all
qed

text \<open>
  C1, as the code has it. On a machine with an alphabet of the first letters of A..Z in
  order, three rotors that are permutations of it, an involution as reflector (a fixed
  point does no harm), disjoint plugs, a base and turnovers for the three rotors,
  \<open>encode\<close> returns on every message of symbols of the alphabet, and encoding what
  it returned, again from the base, gives the message back.
\<close>

theorem encode_involution:
  assumes "valid_configuration self" and "set plaintext \<subseteq> set (Enigma_alphabet self)"
  shows "\<exists>ciphertext. encode self plaintext = Inr ciphertext \<and>
    encode self ciphertext = Inr plaintext"
proof -
  let ?alph = "Enigma_alphabet self"
  from assms(1) have std: "standard_alphabet ?alph"
    and wlz: "length (Enigma_walzen self) = 3"
      "\<forall>walze \<in> set (Enigma_walzen self). spec_permutation ?alph walze"
    and inv: "involutive ?alph (Enigma_umkehrwalze self)"
    and pp: "plug_pairs ?alph (Enigma_steckerbrett self)"
    and b: "length (Enigma_base self) = 3" "set (Enigma_base self) \<subseteq> set ?alph"
    and rk: "length (Enigma_ringkerben self) = 3"
    by (simp_all add: valid_configuration_def)
  from set_to_base_ok [OF std b(2) wlz(2), of "[]" 0 "(0, 0, 0)"] wlz(1) b(1)
  obtain w c where
    start: "set_to_base (Enigma_base self) 0 (Enigma_walzen self) [] (0, 0, 0) = Inr (w, c)"
    and w: "length w = 3" "\<forall>rel \<in> set w. rotor_ok (length ?alph) rel"
    by auto
  from encode_loop_involution [OF std inv pp rk w assms(2), of c] obtain q st where
    q: "encode_loop self w c plaintext = Inr (q, st)" "set q \<subseteq> set ?alph"
      "encode_loop self w c q = Inr (plaintext, st)"
    by blast
  from start q(1) have "encode self plaintext = Inr q"
    by (simp add: encode_def encode_flags_def upper_standard [OF std assms(2)])
  moreover from start q(3) have "encode self q = Inr plaintext"
    by (simp add: encode_def encode_flags_def upper_standard [OF std q(2)])
  ultimately show ?thesis by blast
qed

lemma valid_enigma_3: "valid_configuration enigma_3"
  by code_simp

lemma valid_enigma_1: "valid_configuration enigma_1"
  by code_simp

lemma encode_enigma_3_HELLOWORLD: "encode enigma_3 ''HELLOWORLD'' = Inr ''DATBBQVPQV''"
  by code_simp

lemma encode_enigma_1_HEADACHE: "encode enigma_1 ''HEADACHE'' = Inr ''CABHBHAB''"
  by code_simp

lemma encode_enigma_1_back: "encode enigma_1 ''CABHBHAB'' = Inr ''HEADACHE''"
  by code_simp

text \<open>
  The machine of the second doctest with three plugs, and the eight-letter machine of
  the first doctest.
\<close>

theorem encode_involution_witness:
  "valid_configuration enigma_3 \<and> set ''HELLOWORLD'' \<subseteq> set (Enigma_alphabet enigma_3) \<and>
   encode enigma_3 ''HELLOWORLD'' = Inr ''DATBBQVPQV'' \<and>
   encode enigma_3 ''DATBBQVPQV'' = Inr ''HELLOWORLD'' \<and>
   valid_configuration enigma_1 \<and> set ''HEADACHE'' \<subseteq> set (Enigma_alphabet enigma_1) \<and>
   encode enigma_1 ''HEADACHE'' = Inr ''CABHBHAB'' \<and>
   encode enigma_1 ''CABHBHAB'' = Inr ''HEADACHE''"
  using encode_involution [of enigma_3 "''HELLOWORLD''"]
    encode_involution [of enigma_1 "''HEADACHE''"]
  by (simp add: valid_enigma_3 valid_enigma_1 encode_enigma_3_HELLOWORLD encode_enigma_3_back
      encode_enigma_1_HEADACHE encode_enigma_1_back)
    (simp add: enigma_3_def enigma_2_def enigma_1_def alphabet26_def)

text \<open>The constructor and set_umkehrwalze build the machine over A, C, B, D.\<close>

lemma enigma_4_built:
  "and_then (Enigma_init 3 False ''ACBD'' r)
     (\<lambda>(enigma, r). set_umkehrwalze enigma (Some ''CADB'') r) = Inr (enigma_4, r)"
  by (simp add: Enigma_init_def and_then_def set_umkehrwalze_def item_def enigma_4_def
      eval_nat_numeral)

lemma encode_enigma_2_back: "encode enigma_2 ''ENIGMAREVEALED'' = Inr ''QMJIDOMZWZJFJR''"
  by code_simp

lemma encode_enigma_4_ABCD: "encode enigma_4 ''ABCD'' = Inr ''CBAB''"
  by code_simp

lemma encode_enigma_4_back: "encode enigma_4 ''CBAB'' = Inr ''ABCA''"
  by code_simp

text \<open>
  The message of the second doctest does not come back: its space is gone. And over the
  alphabet A, C, B, D, with the rotors of the constructor and a reflector without fixed
  point that is its own inverse, ABCD becomes CBAB and CBAB becomes ABCA.
\<close>

theorem encode_involution_counterexample:
  "encode enigma_2 ''QMJIDO MZWZJFJR'' = Inr ''ENIGMAREVEALED'' \<and>
   encode enigma_2 ''ENIGMAREVEALED'' = Inr ''QMJIDOMZWZJFJR'' \<and>
   ''QMJIDOMZWZJFJR'' \<noteq> ''QMJIDO MZWZJFJR'' \<and>
   encode enigma_4 ''ABCD'' = Inr ''CBAB'' \<and>
   encode enigma_4 ''CBAB'' = Inr ''ABCA'' \<and>
   ''ABCA'' \<noteq> ''ABCD''"
  by (simp add: encode_enigma_2_message encode_enigma_2_back encode_enigma_4_ABCD
      encode_enigma_4_back)

end
